theory Spec2Isabelle
  imports Complex_Main "HOL-Library.AList"
begin

section \<open>The risk scorer and session store of \<open>server.ts\<close>\<close>

subsection \<open>JavaScript values reaching the message handler\<close>

text \<open>
  The handler of \<open>ws.on("message")\<close> works on whatever \<open>JSON.parse\<close> returns, so the
  model starts from JSON values. A number is written as the real number that its shortest
  decimal form (the one JavaScript prints for it) denotes, and so are the literals 500 and
  0.8 of the handler; this reading of doubles is strictly monotone, so a comparison of two
  doubles and the comparison of the reals written for them agree. An object is the
  association list of its own properties, read with \<open>map_of\<close>.
\<close>

datatype json =
    JNull
  | JBool bool
  | JNum real
  | JStr string
  | JArr "json list"
  | JObj "(string \<times> json) list"

text \<open>What reading a property gives: a JSON value, or \<open>undefined\<close> when it is absent.\<close>

datatype jsval = Undefined | Val json

datatype exn = SyntaxError | TypeError

text \<open>
  The text of an inbound frame either is JSON text or is not; \<open>JSON.parse\<close> throws a
  \<open>SyntaxError\<close> on the latter.
\<close>

datatype inbound = Malformed | Wellformed json

fun JSON_parse :: "inbound \<Rightarrow> exn + json" where
  "JSON_parse Malformed = Inl SyntaxError"
| "JSON_parse (Wellformed j) = Inr j"

text \<open>
  Property access \<open>v.name\<close> for the names the handler reads (\<open>type\<close>, \<open>payload\<close>,
  \<open>token\<close>, \<open>typingSpeed\<close>, \<open>mouseJitter\<close>, \<open>sessionToken\<close>; none of them is defined
  on a prototype, so only own properties count). Reading a property of \<open>null\<close> or
  \<open>undefined\<close> throws a \<open>TypeError\<close>; on a number, boolean, string or array these names
  are \<open>undefined\<close>.
\<close>

fun get_prop :: "jsval \<Rightarrow> string \<Rightarrow> exn + jsval" where
  "get_prop Undefined name = Inl TypeError"
| "get_prop (Val JNull) name = Inl TypeError"
| "get_prop (Val (JObj kvs)) name =
     Inr (case map_of kvs name of None \<Rightarrow> Undefined | Some v \<Rightarrow> Val v)"
| "get_prop (Val v) name = Inr Undefined"

text \<open>
  The numbers of JavaScript that a conversion can produce: \<open>NaN\<close>, the infinities and
  the finite ones.
\<close>

datatype jsnum = NaN | NegInf | Fin real | PosInf

text \<open>
  Sequencing of two computations that may throw: when the first throws, the second does
  not run.
\<close>

definition and_then :: "exn + 'a \<Rightarrow> ('a \<Rightarrow> exn + 'b) \<Rightarrow> exn + 'b" where
  "and_then r f = (case r of Inl e \<Rightarrow> Inl e | Inr x \<Rightarrow> f x)"

text \<open>
  Two functions of the language that the conversions below go through and that are not
  code of this repository: \<open>StringToNumber\<close>, which reads a string as a number (\<open>NaN\<close>
  when it is not numeric text), and \<open>Number::toString\<close>. Both are total and never throw;
  they are parameters of the model.
\<close>

record runtime =
  StringToNumber :: "string \<Rightarrow> jsnum"
  NumberToString :: "real \<Rightarrow> string"

text \<open>
  \<open>Array.prototype.join\<close> with the separator \<open>,\<close>, on the strings of the elements (a
  conversion that throws makes the join throw).
\<close>

fun Array_join :: "(exn + string) list \<Rightarrow> exn + string" where
  "Array_join [] = Inr []"
| "Array_join [r] = r"
| "Array_join (r # rs) =
     and_then r (\<lambda>s. and_then (Array_join rs) (\<lambda>t. Inr (s @ '','' @ t)))"

text \<open>
  The string of a parsed value, as \<open>ToPrimitive\<close> and \<open>ToString\<close> of ECMAScript give it.
  An object made by \<open>JSON.parse\<close> has no callable property of its own. Without an own
  \<open>toString\<close> property it inherits \<open>Object.prototype.toString\<close> and its string is
  \<open>[object Object]\<close>; with one (necessarily not callable) no method yields a primitive
  (the inherited \<open>valueOf\<close> returns the object itself, an own \<open>valueOf\<close> is not callable)
  and the conversion throws a \<open>TypeError\<close>. An array inherits
  \<open>Array.prototype.toString\<close>, which joins the strings of its elements, \<open>null\<close> giving
  the empty string.
\<close>

fun ToString :: "runtime \<Rightarrow> json \<Rightarrow> exn + string" where
  "ToString rt JNull = Inr ''null''"
| "ToString rt (JBool b) = Inr (if b then ''true'' else ''false'')"
| "ToString rt (JNum x) = Inr (NumberToString rt x)"
| "ToString rt (JStr s) = Inr s"
| "ToString rt (JArr xs) =
     Array_join (map (\<lambda>x. if x = JNull then Inr [] else ToString rt x) xs)"
| "ToString rt (JObj kvs) =
     (case map_of kvs ''toString'' of None \<Rightarrow> Inr ''[object Object]''
      | Some f \<Rightarrow> Inl TypeError)"

text \<open>
  \<open>ToNumber\<close> of ECMAScript: \<open>undefined\<close> is \<open>NaN\<close>, \<open>null\<close> is 0, \<open>true\<close> is 1,
  a string is read by \<open>StringToNumber\<close> (which never throws), and an array or object is
  first turned into its string (which may throw) and that string is read.
\<close>

fun ToNumber :: "runtime \<Rightarrow> jsval \<Rightarrow> exn + jsnum" where
  "ToNumber rt Undefined = Inr NaN"
| "ToNumber rt (Val JNull) = Inr (Fin 0)"
| "ToNumber rt (Val (JBool b)) = Inr (Fin (if b then 1 else 0))"
| "ToNumber rt (Val (JNum x)) = Inr (Fin x)"
| "ToNumber rt (Val (JStr s)) = Inr (StringToNumber rt s)"
| "ToNumber rt (Val v) = and_then (ToString rt v) (\<lambda>s. Inr (StringToNumber rt s))"

text \<open>\<open>n > c\<close> on numbers: false as soon as \<open>n\<close> is \<open>NaN\<close>.\<close>

fun num_gt :: "jsnum \<Rightarrow> real \<Rightarrow> bool" where
  "num_gt NaN c = False"
| "num_gt NegInf c = False"
| "num_gt (Fin x) c = (x > c)"
| "num_gt PosInf c = True"

text \<open>The expression \<open>v > c\<close> for a numeric literal \<open>c\<close>: \<open>v\<close> is converted to a number.\<close>

definition js_gt :: "runtime \<Rightarrow> jsval \<Rightarrow> real \<Rightarrow> exn + bool" where
  "js_gt rt v c = and_then (ToNumber rt v) (\<lambda>n. Inr (num_gt n c))"

text \<open>\<open>v === "..."\<close>: true only for a string with the same characters.\<close>

fun strict_eq_str :: "jsval \<Rightarrow> string \<Rightarrow> bool" where
  "strict_eq_str (Val (JStr s)) t = (s = t)"
| "strict_eq_str v t = False"

subsection \<open>The message handler\<close>

record RiskUpdate =
  riskScore :: int
  reason :: string

record SessionRecord =
  startTime :: int
  ip :: string
  userAgent :: string

text \<open>
  \<open>sessions\<close> is a \<open>Map\<close>: its entries in insertion order. \<open>Map.set\<close> replaces the
  value of a key that is present and appends otherwise. Keys are compared by
  \<open>SameValueZero\<close>: by value for \<open>undefined\<close>, \<open>null\<close>, booleans, numbers and
  strings, by identity for arrays and objects. An array or object produced by
  \<open>JSON.parse\<close> is a new one each time, so such a key is never found in the map and its
  entry is appended.
\<close>

type_synonym sessions = "(jsval \<times> SessionRecord) list"

fun by_identity :: "jsval \<Rightarrow> bool" where
  "by_identity (Val (JArr xs)) = True"
| "by_identity (Val (JObj kvs)) = True"
| "by_identity v = False"

definition Map_set :: "jsval \<Rightarrow> SessionRecord \<Rightarrow> sessions \<Rightarrow> sessions" where
  "Map_set k v m = (if by_identity k then m @ [(k, v)] else AList.update k v m)"

text \<open>
  The \<open>BEHAVIOR_REPORT\<close> branch (lines 23 to 35). The destructuring of \<open>data.payload\<close>
  throws when the payload is \<open>undefined\<close> or \<open>null\<close>. The result is the list of
  messages passed to \<open>ws.send\<close>.
\<close>

definition behavior_report :: "runtime \<Rightarrow> jsval \<Rightarrow> exn + RiskUpdate list" where
  "behavior_report rt payload =
     and_then (get_prop payload ''typingSpeed'') (\<lambda>typingSpeed.
     and_then (get_prop payload ''mouseJitter'') (\<lambda>mouseJitter.
     and_then (get_prop payload ''sessionToken'') (\<lambda>sessionToken.
     and_then (js_gt rt typingSpeed 500) (\<lambda>fast.
     and_then (js_gt rt mouseJitter 0.8) (\<lambda>erratic.
       let riskScore0 = 0;
           riskScore1 = (if fast then riskScore0 + 30 else riskScore0);
           riskScore2 = (if erratic then riskScore1 + 40 else riskScore1)
       in Inr [\<lparr>riskScore = riskScore2,
                reason = (if riskScore2 > 50 then ''Anomalous interaction detected''
                          else ''Normal'')\<rparr>])))))"

text \<open>
  The \<open>SESSION_INIT\<close> branch (lines 37 to 43); \<open>now\<close> is what \<open>Date.now()\<close> returns.
\<close>

definition session_init :: "int \<Rightarrow> jsval \<Rightarrow> sessions \<Rightarrow> exn + sessions" where
  "session_init now payload sessions =
     and_then (get_prop payload ''token'') (\<lambda>token.
       Inr (Map_set token
              \<lparr>startTime = now, ip = ''192.168.1.1'', userAgent = ''Mozilla/5.0...''\<rparr>
              sessions))"

text \<open>
  The handler: the messages it sends and the store it leaves, or the exception it throws
  (every throw comes before the first effect of the handler, so a thrown exception leaves
  nothing sent and the store as it was).
\<close>

definition on_message ::
  "runtime \<Rightarrow> int \<Rightarrow> inbound \<Rightarrow> sessions \<Rightarrow> exn + (RiskUpdate list \<times> sessions)" where
  "on_message rt now message sessions =
     and_then (JSON_parse message) (\<lambda>data.
     and_then (get_prop (Val data) ''type'') (\<lambda>type1.
     and_then (if strict_eq_str type1 ''BEHAVIOR_REPORT''
               then and_then (get_prop (Val data) ''payload'') (behavior_report rt)
               else Inr []) (\<lambda>sent.
     and_then (get_prop (Val data) ''type'') (\<lambda>type2.
     and_then (if strict_eq_str type2 ''SESSION_INIT''
               then and_then (get_prop (Val data) ''payload'')
                      (\<lambda>payload. session_init now payload sessions)
               else Inr sessions) (\<lambda>sessions'.
       Inr (sent, sessions'))))))"

text \<open>
  The handler runs once per inbound message, in arrival order; an uncaught exception ends
  the run.
\<close>

fun run_server ::
  "runtime \<Rightarrow> (int \<times> inbound) list \<Rightarrow> sessions \<Rightarrow> exn + (RiskUpdate list \<times> sessions)" where
  "run_server rt [] sessions = Inr ([], sessions)"
| "run_server rt ((now, message) # rest) sessions =
     and_then (on_message rt now message sessions) (\<lambda>(sent, sessions').
     and_then (run_server rt rest sessions') (\<lambda>(sent', sessions'').
       Inr (sent @ sent', sessions'')))"

text \<open>
  The report that \<open>App.tsx\<close> sends (lines 87 to 94), and a session-init message as the
  handler reads it.
\<close>

definition BEHAVIOR_REPORT :: "json \<Rightarrow> json \<Rightarrow> json \<Rightarrow> json" where
  "BEHAVIOR_REPORT typingSpeed mouseJitter sessionToken =
     JObj [(''type'', JStr ''BEHAVIOR_REPORT''),
           (''payload'', JObj [(''typingSpeed'', typingSpeed),
                               (''mouseJitter'', mouseJitter),
                               (''sessionToken'', sessionToken)])]"

definition SESSION_INIT :: "json \<Rightarrow> json" where
  "SESSION_INIT token = JObj [(''type'', JStr ''SESSION_INIT''), (''payload'', JObj [(''token'', token)])]"


section \<open>The telemetry sampler of \<open>useBehaviorMonitor.ts\<close>\<close>

text \<open>
  Times are the integer milliseconds of \<open>Date.now()\<close>, so the key intervals are
  integers. Pointer coordinates, the average and the jitter are real numbers (numeric
  idealisation of the doubles, rounding left out).
\<close>

record BehaviorData =
  typingSpeed :: real
  mouseJitter :: real
  timestamp :: int

text \<open>
  The hook's state: the \<open>useState\<close> value \<open>data\<close>, the three \<open>useRef\<close> cells, and
  \<open>listening\<close>, which says whether the effect's two listeners are attached.
\<close>

record monitor =
  data :: BehaviorData
  lastKeyTime :: int
  keyIntervals :: "int list"
  mousePositions :: "(real \<times> real) list"
  listening :: bool

text \<open>
  The first render creates the state and the refs and runs the effect, which attaches the
  listeners when \<open>isActive\<close> holds.
\<close>

definition mount :: "int \<Rightarrow> bool \<Rightarrow> monitor" where
  "mount now isActive =
     \<lparr>data = \<lparr>typingSpeed = 0, mouseJitter = 0, timestamp = now\<rparr>,
      lastKeyTime = 0, keyIntervals = [], mousePositions = [], listening = isActive\<rparr>"

definition handleKeyDown :: "int \<Rightarrow> monitor \<Rightarrow> monitor" where
  "handleKeyDown now m =
     (let intervals =
            (if lastKeyTime m \<noteq> 0
             then (let pushed = keyIntervals m @ [now - lastKeyTime m]
                   in if length pushed > 10 then tl pushed else pushed)
             else keyIntervals m);
          avgSpeed =
            (if length intervals > 0
             then real_of_int (foldl (\<lambda>a b. a + b) 0 intervals) / real (length intervals)
             else 0)
      in m\<lparr>keyIntervals := intervals, lastKeyTime := now,
            data := (data m)\<lparr>typingSpeed := avgSpeed, timestamp := now\<rparr>\<rparr>)"

text \<open>
  The \<open>for\<close> loop of \<open>handleMouseMove\<close> (lines 41 to 47): \<open>i\<close> runs from 1 while it
  is below the number of positions, and each round pushes one distance onto \<open>deltas\<close>.
\<close>

function deltas_loop :: "(real \<times> real) list \<Rightarrow> nat \<Rightarrow> real list \<Rightarrow> real list" where
  "deltas_loop ps i deltas =
     (if i < length ps
      then deltas_loop ps (Suc i)
             (deltas @ [sqrt ((fst (ps ! i) - fst (ps ! (i - 1))) ^ 2 +
                              (snd (ps ! i) - snd (ps ! (i - 1))) ^ 2)])
      else deltas)"
  by pat_completeness auto
termination
  by (relation "measure (\<lambda>(ps, i, deltas). length ps - i)") auto

declare deltas_loop.simps [simp del]

definition handleMouseMove :: "real \<times> real \<Rightarrow> int \<Rightarrow> monitor \<Rightarrow> monitor" where
  "handleMouseMove e now m =
     (let pushed = mousePositions m @ [e];
          positions = (if length pushed > 20 then tl pushed else pushed);
          jitter =
            (if length positions > 2
             then (let deltas = deltas_loop positions 1 [];
                       avg = foldl (\<lambda>a b. a + b) 0 deltas / real (length deltas)
                   in foldl (\<lambda>a b. a + \<bar>b - avg\<bar>) 0 deltas / real (length deltas))
             else 0)
      in m\<lparr>mousePositions := positions,
            data := (data m)\<lparr>mouseJitter := jitter, timestamp := now\<rparr>\<rparr>)"

text \<open>
  What happens to the hook: a key press at a time, a pointer move to a position at a
  time, or a render with a value of \<open>isActive\<close>. The effect depends on \<open>isActive\<close>
  alone: a render that changes it runs the cleanup (listeners removed) and then the
  effect (listeners attached when \<open>isActive\<close> holds); the refs and \<open>data\<close> are not
  touched. An input event reaches a handler only while the listeners are attached.
\<close>

datatype event = KeyDown int | MouseMove "real \<times> real" int | Render bool

fun step :: "event \<Rightarrow> monitor \<Rightarrow> monitor" where
  "step (KeyDown now) m = (if listening m then handleKeyDown now m else m)"
| "step (MouseMove e now) m = (if listening m then handleMouseMove e now m else m)"
| "step (Render isActive) m = m\<lparr>listening := isActive\<rparr>"

fun run :: "event list \<Rightarrow> monitor \<Rightarrow> monitor" where
  "run [] m = m"
| "run (e # es) m = run es (step e m)"

subsection \<open>The metrics as the specification words them\<close>

text \<open>The gaps between consecutive keystroke times, oldest first.\<close>

definition gaps :: "int list \<Rightarrow> int list" where
  "gaps ts = map (\<lambda>(earlier, later). later - earlier) (zip ts (tl ts))"

text \<open>The most recent \<open>n\<close> elements of a sequence whose newest element is last.\<close>

definition most_recent :: "nat \<Rightarrow> 'a list \<Rightarrow> 'a list" where
  "most_recent n xs = drop (length xs - n) xs"

definition mean_of_gaps :: "int list \<Rightarrow> real" where
  "mean_of_gaps xs = real_of_int (sum_list xs) / real (length xs)"

text \<open>Euclidean step lengths between consecutive positions.\<close>

definition step_lengths :: "(real \<times> real) list \<Rightarrow> real list" where
  "step_lengths ps =
     map (\<lambda>(p, q). sqrt ((fst q - fst p) ^ 2 + (snd q - snd p) ^ 2)) (zip ps (tl ps))"

definition mean :: "real list \<Rightarrow> real" where
  "mean xs = sum_list xs / real (length xs)"

definition mean_abs_dev :: "real list \<Rightarrow> real" where
  "mean_abs_dev xs = sum_list (map (\<lambda>x. \<bar>x - mean xs\<bar>) xs) / real (length xs)"

section \<open>Properties of the message handler\<close>

subsection \<open>Auxiliary facts\<close>

lemma strict_eq_str_iff: "strict_eq_str v t \<longleftrightarrow> v = Val (JStr t)"
  by (induction v t rule: strict_eq_str.induct) auto

lemma on_message_report:
  assumes "map_of msg ''type'' = Some (JStr ''BEHAVIOR_REPORT'')"
    and "map_of msg ''payload'' = Some payload"
  shows "on_message rt now (Wellformed (JObj msg)) store =
           and_then (behavior_report rt (Val payload)) (\<lambda>sent. Inr (sent, store))"
  using assms by (simp add: on_message_def and_then_def split: sum.splits)

lemma behavior_report_numbers:
  fixes t j :: real
  assumes "map_of props ''typingSpeed'' = Some (JNum t)"
    and "map_of props ''mouseJitter'' = Some (JNum j)"
  shows "behavior_report rt (Val (JObj props)) =
           Inr [\<lparr>riskScore = (if t > 500 then 30 else 0) + (if j > 0.8 then 40 else 0),
                  reason = (if (if t > 500 then 30 else 0) + (if j > 0.8 then 40 else (0::int)) > 50
                            then ''Anomalous interaction detected'' else ''Normal'')\<rparr>]"
  using assms by (simp add: behavior_report_def and_then_def js_gt_def Let_def)

lemma on_message_BEHAVIOR_REPORT:
  "on_message rt now (Wellformed (BEHAVIOR_REPORT (JNum t) (JNum j) tok)) store =
     Inr ([\<lparr>riskScore = (if t > 500 then 30 else 0) + (if j > 0.8 then 40 else 0),
            reason = (if (if t > 500 then 30 else 0) + (if j > 0.8 then 40 else (0::int)) > 50
                      then ''Anomalous interaction detected'' else ''Normal'')\<rparr>], store)"
proof -
  let ?props = "[(''typingSpeed'', JNum t), (''mouseJitter'', JNum j), (''sessionToken'', tok)]"
  have "on_message rt now (Wellformed (BEHAVIOR_REPORT (JNum t) (JNum j) tok)) store =
          and_then (behavior_report rt (Val (JObj ?props))) (\<lambda>sent. Inr (sent, store))"
    unfolding BEHAVIOR_REPORT_def by (rule on_message_report) simp_all
  moreover have "map_of ?props ''typingSpeed'' = Some (JNum t)"
    and "map_of ?props ''mouseJitter'' = Some (JNum j)"
    by simp_all
  ultimately show ?thesis
    by (simp only: behavior_report_numbers and_then_def sum.case)
qed


subsection \<open>The scoring rule\<close>

text \<open>
  Claim C1. For every \<open>BEHAVIOR_REPORT\<close> whose payload carries the numbers \<open>t\<close> as
  \<open>typingSpeed\<close> and \<open>j\<close> as \<open>mouseJitter\<close> (whatever else the message and the payload
  hold, whatever the time and the store), the handler sends exactly one risk update: its
  \<open>riskScore\<close> starts at 0, gets 30 when \<open>t > 500\<close> and 40 when \<open>j > 0.8\<close>, and its
  \<open>reason\<close> is \<open>Anomalous interaction detected\<close> when that score exceeds 50 and
  \<open>Normal\<close> otherwise; the store is left as it was.
\<close>

theorem C1_score_rule:
  fixes t j :: real
  assumes "map_of msg ''type'' = Some (JStr ''BEHAVIOR_REPORT'')"
    and "map_of msg ''payload'' = Some (JObj props)"
    and "map_of props ''typingSpeed'' = Some (JNum t)"
    and "map_of props ''mouseJitter'' = Some (JNum j)"
  shows "on_message rt now (Wellformed (JObj msg)) store =
           Inr ([\<lparr>riskScore = (if t > 500 then 30 else 0) + (if j > 0.8 then 40 else 0),
                  reason = (if (if t > 500 then 30 else 0) + (if j > 0.8 then 40 else (0::int)) > 50
                            then ''Anomalous interaction detected'' else ''Normal'')\<rparr>], store)"
  by (simp only: on_message_report [OF assms(1,2)] behavior_report_numbers [OF assms(3,4)]
        and_then_def sum.case)

text \<open>
  The four reports of the specification, as \<open>App.tsx\<close> would send them: (600, 0) scores
  30, (0, 0.9) scores 40, (600, 0.9) scores 70 and is anomalous, (0, 0) scores 0.
\<close>

theorem C1_score_rule_witness:
  "on_message \<lparr>StringToNumber = (\<lambda>s. NaN), NumberToString = (\<lambda>x. [])\<rparr> 0
     (Wellformed (BEHAVIOR_REPORT (JNum 600) (JNum 0) (JStr ''mock-token-123''))) [] =
     Inr ([\<lparr>riskScore = 30, reason = ''Normal''\<rparr>], []) \<and>
   on_message \<lparr>StringToNumber = (\<lambda>s. NaN), NumberToString = (\<lambda>x. [])\<rparr> 0
     (Wellformed (BEHAVIOR_REPORT (JNum 0) (JNum 0.9) (JStr ''mock-token-123''))) [] =
     Inr ([\<lparr>riskScore = 40, reason = ''Normal''\<rparr>], []) \<and>
   on_message \<lparr>StringToNumber = (\<lambda>s. NaN), NumberToString = (\<lambda>x. [])\<rparr> 0
     (Wellformed (BEHAVIOR_REPORT (JNum 600) (JNum 0.9) (JStr ''mock-token-123''))) [] =
     Inr ([\<lparr>riskScore = 70, reason = ''Anomalous interaction detected''\<rparr>], []) \<and>
   on_message \<lparr>StringToNumber = (\<lambda>s. NaN), NumberToString = (\<lambda>x. [])\<rparr> 0
     (Wellformed (BEHAVIOR_REPORT (JNum 0) (JNum 0) (JStr ''mock-token-123''))) [] =
     Inr ([\<lparr>riskScore = 0, reason = ''Normal''\<rparr>], [])"
proof -
  have rule: "on_message \<lparr>StringToNumber = (\<lambda>s. NaN), NumberToString = (\<lambda>x. [])\<rparr> 0
       (Wellformed (BEHAVIOR_REPORT (JNum t) (JNum j) (JStr ''mock-token-123''))) [] =
     Inr ([\<lparr>riskScore = (if t > 500 then 30 else 0) + (if j > 0.8 then 40 else 0),
            reason = (if (if t > 500 then 30 else 0) + (if j > 0.8 then 40 else (0::int)) > 50
                      then ''Anomalous interaction detected'' else ''Normal'')\<rparr>], [])" for t j
    unfolding BEHAVIOR_REPORT_def
    by (rule C1_score_rule
          [where props = "[(''typingSpeed'', JNum t), (''mouseJitter'', JNum j),
                           (''sessionToken'', JStr ''mock-token-123'')]"]) simp_all
  show ?thesis
    by (simp add: rule)
qed

text \<open>
  Claim C7. The thresholds are strict: a report with \<open>typingSpeed\<close> exactly 500 never gets
  the 30 points (its score is 40 or 0, by the jitter alone), a report with \<open>mouseJitter\<close>
  exactly 0.8 never gets the 40 points, and the report (500, 0.8) scores 0 with reason
  \<open>Normal\<close>.
\<close>

theorem C7_strict_thresholds:
  "on_message rt now (Wellformed (BEHAVIOR_REPORT (JNum 500) (JNum j) tok)) store =
     Inr ([\<lparr>riskScore = (if j > 0.8 then 40 else 0), reason = ''Normal''\<rparr>], store) \<and>
   on_message rt now (Wellformed (BEHAVIOR_REPORT (JNum t) (JNum 0.8) tok)) store =
     Inr ([\<lparr>riskScore = (if t > 500 then 30 else 0), reason = ''Normal''\<rparr>], store) \<and>
   on_message rt now (Wellformed (BEHAVIOR_REPORT (JNum 500) (JNum 0.8) tok)) store =
     Inr ([\<lparr>riskScore = 0, reason = ''Normal''\<rparr>], store)"
  by (simp add: on_message_BEHAVIOR_REPORT)

subsection \<open>Malformed reports\<close>











subsection \<open>Messages of another type\<close>

text \<open>
  Claim C9. An inbound message that parses to a value with a readable \<open>type\<close> (anything
  but \<open>null\<close>) whose tag is neither \<open>BEHAVIOR_REPORT\<close> nor \<open>SESSION_INIT\<close> is
  ignored: the handler returns normally, sends nothing and leaves the store as it was.
\<close>

theorem C9_unknown_type_ignored:
  assumes "get_prop (Val msg) ''type'' = Inr tag"
    and "tag \<noteq> Val (JStr ''BEHAVIOR_REPORT'')"
    and "tag \<noteq> Val (JStr ''SESSION_INIT'')"
  shows "on_message rt now (Wellformed msg) store = Inr ([], store)"
  using assms by (simp add: on_message_def and_then_def strict_eq_str_iff)

theorem C9_unknown_type_ignored_witness:
  "on_message \<lparr>StringToNumber = (\<lambda>s. NaN), NumberToString = (\<lambda>x. [])\<rparr> 0 (Wellformed (JObj [(''type'', JStr ''PING'')])) [] = Inr ([], [])"
  by (rule C9_unknown_type_ignored [where tag = "Val (JStr ''PING'')"]) simp_all

subsection \<open>The score does not depend on the session\<close>

text \<open>
  Claim C10. Two \<open>BEHAVIOR_REPORT\<close> messages whose payloads agree on \<open>typingSpeed\<close> and
  on \<open>mouseJitter\<close> get the same answer from the handler (the same risk update, or the
  same exception), whatever their \<open>sessionToken\<close> and other fields are, whenever they
  arrive and whatever the session store holds.
\<close>

theorem C10_token_independent:
  assumes "map_of msgA ''type'' = Some (JStr ''BEHAVIOR_REPORT'')"
    and "map_of msgB ''type'' = Some (JStr ''BEHAVIOR_REPORT'')"
    and "map_of msgA ''payload'' = Some (JObj propsA)"
    and "map_of msgB ''payload'' = Some (JObj propsB)"
    and "map_of propsA ''typingSpeed'' = map_of propsB ''typingSpeed''"
    and "map_of propsA ''mouseJitter'' = map_of propsB ''mouseJitter''"
  shows "map_sum id fst (on_message rt nowA (Wellformed (JObj msgA)) storeA) =
         map_sum id fst (on_message rt nowB (Wellformed (JObj msgB)) storeB)"
proof -
  have "behavior_report rt (Val (JObj propsA)) = behavior_report rt (Val (JObj propsB))"
    using assms(5,6) by (simp add: behavior_report_def and_then_def)
  then show ?thesis
    using assms(1-4) by (simp add: on_message_report and_then_def split: sum.splits)
qed

theorem C10_token_independent_witness:
  "map_sum id fst
     (on_message \<lparr>StringToNumber = (\<lambda>s. NaN), NumberToString = (\<lambda>x. [])\<rparr> 1
        (Wellformed (BEHAVIOR_REPORT (JNum 600) (JNum 0.9) (JStr ''alice''))) []) =
   map_sum id fst
     (on_message \<lparr>StringToNumber = (\<lambda>s. NaN), NumberToString = (\<lambda>x. [])\<rparr> 2
        (Wellformed (BEHAVIOR_REPORT (JNum 600) (JNum 0.9) (JStr ''bob'')))
        [(Val (JStr ''bob''),
          \<lparr>startTime = 0, ip = ''192.168.1.1'', userAgent = ''Mozilla/5.0...''\<rparr>)])"
  unfolding BEHAVIOR_REPORT_def
  by (rule C10_token_independent
        [where propsA = "[(''typingSpeed'', JNum 600), (''mouseJitter'', JNum 0.9),
                          (''sessionToken'', JStr ''alice'')]"
           and propsB = "[(''typingSpeed'', JNum 600), (''mouseJitter'', JNum 0.9),
                          (''sessionToken'', JStr ''bob'')]"]) simp_all

subsection \<open>The session store\<close>

lemma on_message_SESSION_INIT:
  "on_message rt now (Wellformed (SESSION_INIT tok)) store =
     Inr ([], Map_set (Val tok)
                \<lparr>startTime = now, ip = ''192.168.1.1'', userAgent = ''Mozilla/5.0...''\<rparr> store)"
  by (simp add: SESSION_INIT_def on_message_def session_init_def and_then_def)

lemma run_server_inits:
  "run_server rt (map (\<lambda>(now, tok). (now, Wellformed (SESSION_INIT tok))) inits) store =
     Inr ([], fold (\<lambda>(now, tok). Map_set (Val tok)
                \<lparr>startTime = now, ip = ''192.168.1.1'', userAgent = ''Mozilla/5.0...''\<rparr>) inits store)"
proof (induction inits arbitrary: store)
  case Nil
  show ?case by simp
next
  case (Cons a inits)
  obtain now tok where a: "a = (now, tok)" by (cases a)
  show ?case
    by (simp add: a on_message_SESSION_INIT Cons.IH and_then_def)
qed

lemma Map_set_by_value:
  "\<not> by_identity k \<Longrightarrow> Map_set k v m = AList.update k v m"
  by (simp add: Map_set_def)

lemma fold_Map_set_keys:
  assumes "\<forall>tok \<in> snd ` set inits. \<not> by_identity (Val tok)"
  shows "fst ` set (fold (\<lambda>(now, tok). Map_set (Val tok) (f now)) inits store) =
           fst ` set store \<union> Val ` snd ` set inits"
  using assms
proof (induction inits arbitrary: store)
  case Nil
  show ?case by simp
next
  case (Cons a inits)
  obtain now tok where a: "a = (now, tok)" by (cases a)
  from Cons.prems have "\<not> by_identity (Val tok)" and rest: "\<forall>tok \<in> snd ` set inits. \<not> by_identity (Val tok)"
    by (simp_all add: a)
  then show ?case
    by (simp add: a Cons.IH [OF rest] Map_set_by_value dom_update)
qed

lemma fold_Map_set_distinct:
  assumes "\<forall>tok \<in> snd ` set inits. \<not> by_identity (Val tok)" and "distinct (map fst store)"
  shows "distinct (map fst (fold (\<lambda>(now, tok). Map_set (Val tok) (f now)) inits store))"
  using assms
proof (induction inits arbitrary: store)
  case Nil
  then show ?case by simp
next
  case (Cons a inits)
  obtain now tok where a: "a = (now, tok)" by (cases a)
  from Cons.prems have "\<not> by_identity (Val tok)" and rest: "\<forall>tok \<in> snd ` set inits. \<not> by_identity (Val tok)"
    by (simp_all add: a)
  moreover have "distinct (map fst (AList.update (Val tok) (f now) store))"
    using Cons.prems(2) by (rule distinct_update)
  ultimately show ?case
    by (simp add: a Cons.IH Map_set_by_value)
qed

lemma fold_Map_set_other:
  assumes "\<forall>tok \<in> snd ` set inits. \<not> by_identity (Val tok)" and "k \<notin> Val ` snd ` set inits"
  shows "map_of (fold (\<lambda>(now, tok). Map_set (Val tok) (f now)) inits store) k = map_of store k"
  using assms
proof (induction inits arbitrary: store)
  case Nil
  show ?case by simp
next
  case (Cons a inits)
  obtain now tok where a: "a = (now, tok)" by (cases a)
  from Cons.prems have "\<not> by_identity (Val tok)" and rest: "\<forall>tok \<in> snd ` set inits. \<not> by_identity (Val tok)"
    and "k \<noteq> Val tok" and "k \<notin> Val ` snd ` set inits"
    by (auto simp add: a)
  then show ?case
    by (simp add: a Cons.IH Map_set_by_value update_conv')
qed

lemma fold_Map_set_last:
  assumes "\<forall>tok \<in> snd ` set (pre @ (now, tok) # post). \<not> by_identity (Val tok)"
    and "tok \<notin> snd ` set post"
  shows "map_of (fold (\<lambda>(now, tok). Map_set (Val tok) (f now)) (pre @ (now, tok) # post) store) (Val tok)
           = Some (f now)"
proof -
  have post: "\<forall>tok \<in> snd ` set post. \<not> by_identity (Val tok)" and tok: "\<not> by_identity (Val tok)"
    using assms(1) by auto
  have "Val tok \<notin> Val ` snd ` set post"
    using assms(2) by auto
  then show ?thesis
    by (simp add: fold_Map_set_other [OF post] Map_set_by_value [OF tok] update_conv')
qed

text \<open>
  Claim C8. A sequence of \<open>SESSION_INIT\<close> messages whose tokens are compared by value
  (strings, as the wire format has them, and also numbers, booleans and \<open>null\<close>), run
  from the empty store: no message throws or sends anything, the store ends with as many
  entries as there are distinct tokens in the sequence, and the record of a token is the one
  written by the last message carrying that token.
\<close>

theorem C8_session_store_last_writer_wins:
  assumes "\<forall>tok \<in> snd ` set inits. \<not> by_identity (Val tok)"
  shows "\<exists>store.
           run_server rt (map (\<lambda>(now, tok). (now, Wellformed (SESSION_INIT tok))) inits) [] =
             Inr ([], store) \<and>
           length store = card (snd ` set inits) \<and>
           (\<forall>pre now tok post. inits = pre @ (now, tok) # post \<and> tok \<notin> snd ` set post \<longrightarrow>
              map_of store (Val tok) =
                Some \<lparr>startTime = now, ip = ''192.168.1.1'', userAgent = ''Mozilla/5.0...''\<rparr>)"
proof -
  let ?rec = "\<lambda>now. \<lparr>startTime = now, ip = ''192.168.1.1'', userAgent = ''Mozilla/5.0...''\<rparr>"
  let ?store = "fold (\<lambda>(now, tok). Map_set (Val tok) (?rec now)) inits []"
  have "distinct (map fst ?store)"
    by (rule fold_Map_set_distinct [OF assms]) simp
  then have "card (set (map fst ?store)) = length (map fst ?store)"
    by (rule distinct_card)
  then have "length ?store = card (fst ` set ?store)"
    by simp
  also have "\<dots> = card (Val ` snd ` set inits)"
    by (simp add: fold_Map_set_keys [OF assms])
  also have "\<dots> = card (snd ` set inits)"
    by (rule card_image) (simp add: inj_on_def)
  finally have size: "length ?store = card (snd ` set inits)" .
  have last: "map_of ?store (Val tok) = Some (?rec now)"
    if "inits = pre @ (now, tok) # post \<and> tok \<notin> snd ` set post" for pre now tok post
    using that assms fold_Map_set_last [of pre now tok post ?rec "[]"] by simp
  show ?thesis
    using size last by (intro exI [of _ ?store]) (simp add: run_server_inits)
qed

theorem C8_session_store_witness:
  "\<exists>store.
     run_server \<lparr>StringToNumber = (\<lambda>s. NaN), NumberToString = (\<lambda>x. [])\<rparr>
       [(1, Wellformed (SESSION_INIT (JStr ''a''))), (2, Wellformed (SESSION_INIT (JStr ''b''))),
        (3, Wellformed (SESSION_INIT (JStr ''a'')))] [] = Inr ([], store) \<and>
     length store = 2 \<and>
     map_of store (Val (JStr ''a'')) =
       Some \<lparr>startTime = 3, ip = ''192.168.1.1'', userAgent = ''Mozilla/5.0...''\<rparr>"
proof -
  let ?inits = "[(1, JStr ''a''), (2, JStr ''b''), (3::int, JStr ''a'')]"
  have h: "\<forall>tok \<in> snd ` set ?inits. \<not> by_identity (Val tok)" by simp
  have c: "card (snd ` set ?inits) = 2" by (simp add: card_insert_if)
  have l: "?inits = [(1, JStr ''a''), (2, JStr ''b'')] @ (3, JStr ''a'') # [] \<and> JStr ''a'' \<notin> snd ` set []"
    by simp
  from C8_session_store_last_writer_wins [OF h, of "\<lparr>StringToNumber = (\<lambda>s. NaN), NumberToString = (\<lambda>x. [])\<rparr>"] obtain store where
    s: "run_server \<lparr>StringToNumber = (\<lambda>s. NaN), NumberToString = (\<lambda>x. [])\<rparr> (map (\<lambda>(now, tok). (now, Wellformed (SESSION_INIT tok))) ?inits) [] =
             Inr ([], store)" "length store = card (snd ` set ?inits)"
      "\<forall>pre now tok post. ?inits = pre @ (now, tok) # post \<and> tok \<notin> snd ` set post \<longrightarrow>
              map_of store (Val tok) =
                Some \<lparr>startTime = now, ip = ''192.168.1.1'', userAgent = ''Mozilla/5.0...''\<rparr>"
    by blast
  from s(3) l have "map_of store (Val (JStr ''a'')) =
       Some \<lparr>startTime = 3, ip = ''192.168.1.1'', userAgent = ''Mozilla/5.0...''\<rparr>"
    by blast
  with s(1,2) c show ?thesis by (intro exI [of _ store]) simp
qed

section \<open>Properties of the telemetry sampler\<close>

subsection \<open>Auxiliary facts\<close>

lemma run_append: "run (es @ fs) m = run fs (run es m)"
  by (induction es arbitrary: m) simp_all

lemma foldl_plus_sum_list:
  fixes a :: "'a::monoid_add"
  shows "foldl (\<lambda>a b. a + b) a xs = a + sum_list xs"
  by (induction xs arbitrary: a) (simp_all add: add.assoc)

lemma foldl_abs_dev:
  fixes a :: real
  shows "foldl (\<lambda>a b. a + \<bar>b - avg\<bar>) a xs = a + sum_list (map (\<lambda>x. \<bar>x - avg\<bar>) xs)"
  by (induction xs arbitrary: a) simp_all

lemma gaps_simps:
  "gaps [] = []" "gaps [a] = []" "gaps (a # b # ts) = (b - a) # gaps (b # ts)"
  by (simp_all add: gaps_def)

lemma gaps_snoc: "ts \<noteq> [] \<Longrightarrow> gaps (ts @ [t]) = gaps ts @ [t - last ts]"
proof (induction ts rule: induct_list012)
  case 1
  then show ?case by simp
next
  case (2 a)
  show ?case by (simp add: gaps_simps)
next
  case (3 a b ts)
  then show ?case by (simp add: gaps_simps)
qed

lemma length_gaps: "length (gaps ts) = length ts - 1"
  by (simp add: gaps_def)

lemma most_recent_push:
  assumes "0 < n"
  shows "most_recent n (xs @ [x]) =
     (let pushed = most_recent n xs @ [x] in if length pushed > n then tl pushed else pushed)"
proof (cases "length xs < n")
  case True
  then show ?thesis
    by (simp add: most_recent_def Let_def)
next
  case False
  then have le: "n \<le> length xs" by simp
  with assms have ne: "drop (length xs - n) xs \<noteq> []" by simp
  have "Suc (length xs) - n = Suc (length xs - n)"
    using le by simp
  moreover have "Suc (length xs - n) - length xs = 0"
    using assms le by simp
  ultimately have "most_recent n (xs @ [x]) = drop (Suc (length xs - n)) xs @ [x]"
    by (simp add: most_recent_def)
  also have "\<dots> = tl (drop (length xs - n) xs @ [x])"
    using ne by (simp add: drop_Suc tl_drop)
  finally show ?thesis
    using le by (simp add: most_recent_def Let_def)
qed

lemma length_most_recent: "length (most_recent n xs) = min n (length xs)"
  by (simp add: most_recent_def)

lemma most_recent_min: "most_recent (min n (length xs)) xs = most_recent n xs"
  by (simp add: most_recent_def min_def)

lemma handleKeyDown_first:
  assumes "lastKeyTime m = 0"
  shows "keyIntervals (handleKeyDown now m) = keyIntervals m"
    and "lastKeyTime (handleKeyDown now m) = now"
    and "listening (handleKeyDown now m) = listening m"
    and "mousePositions (handleKeyDown now m) = mousePositions m"
  using assms by (simp_all add: handleKeyDown_def Let_def)

lemma handleKeyDown_next:
  assumes "lastKeyTime m \<noteq> 0"
  shows "keyIntervals (handleKeyDown now m) =
           (let pushed = keyIntervals m @ [now - lastKeyTime m]
            in if length pushed > 10 then tl pushed else pushed)"
    and "lastKeyTime (handleKeyDown now m) = now"
    and "listening (handleKeyDown now m) = listening m"
    and "mousePositions (handleKeyDown now m) = mousePositions m"
  using assms by (simp_all add: handleKeyDown_def Let_def)

lemma handleKeyDown_typingSpeed:
  "typingSpeed (data (handleKeyDown now m)) =
     (if keyIntervals (handleKeyDown now m) = [] then 0
      else mean_of_gaps (keyIntervals (handleKeyDown now m)))"
  by (simp add: handleKeyDown_def Let_def mean_of_gaps_def foldl_plus_sum_list)

lemma keys_from_mount:
  assumes "ts \<noteq> []" and "0 \<notin> set ts"
  shows "lastKeyTime (run (map KeyDown ts) (mount now0 True)) = last ts \<and>
         keyIntervals (run (map KeyDown ts) (mount now0 True)) = most_recent 10 (gaps ts) \<and>
         listening (run (map KeyDown ts) (mount now0 True))"
  using assms
proof (induction ts rule: rev_nonempty_induct)
  case (single t)
  have "lastKeyTime (mount now0 True) = 0" "keyIntervals (mount now0 True) = []"
    "listening (mount now0 True)"
    by (simp_all add: mount_def)
  then have "lastKeyTime (handleKeyDown t (mount now0 True)) = t"
    "keyIntervals (handleKeyDown t (mount now0 True)) = []"
    "listening (handleKeyDown t (mount now0 True))"
    by (simp_all add: handleKeyDown_first)
  moreover have "run (map KeyDown [t]) (mount now0 True) = handleKeyDown t (mount now0 True)"
    by (simp add: mount_def)
  ultimately show ?case
    by (simp add: gaps_simps most_recent_def)
next
  case (snoc t ts)
  let ?m = "run (map KeyDown ts) (mount now0 True)"
  have "0 \<notin> set ts" using snoc.prems by simp
  from snoc.IH [OF this]
  have IH: "lastKeyTime ?m = last ts" "keyIntervals ?m = most_recent 10 (gaps ts)"
    "listening ?m"
    by blast+
  have "last ts \<in> set ts" using snoc.hyps(1) by simp
  moreover have "0 \<notin> set ts" using snoc.prems by simp
  ultimately have "last ts \<noteq> 0" by auto
  then have nz: "lastKeyTime ?m \<noteq> 0" by (simp add: IH(1))
  have run: "run (map KeyDown (ts @ [t])) (mount now0 True) = handleKeyDown t ?m"
    using IH(3) by (simp add: run_append)
  have "keyIntervals (handleKeyDown t ?m) =
          (let pushed = most_recent 10 (gaps ts) @ [t - last ts]
           in if length pushed > 10 then tl pushed else pushed)"
    by (simp only: handleKeyDown_next(1) [OF nz] IH)
  also have "\<dots> = most_recent 10 (gaps ts @ [t - last ts])"
    by (rule most_recent_push [symmetric]) simp
  also have "\<dots> = most_recent 10 (gaps (ts @ [t]))"
    by (simp only: gaps_snoc [OF snoc.hyps(1)])
  finally have "keyIntervals (handleKeyDown t ?m) = most_recent 10 (gaps (ts @ [t]))" .
  moreover have "lastKeyTime (handleKeyDown t ?m) = last (ts @ [t])"
    by (simp add: handleKeyDown_next(2) [OF nz])
  moreover have "listening (handleKeyDown t ?m)"
    by (simp add: handleKeyDown_next(3) [OF nz] IH(3))
  ultimately show ?case
    unfolding run by blast
qed


lemma deltas_loop_eq:
  "deltas_loop ps i acc =
     acc @ map (\<lambda>k. sqrt ((fst (ps ! k) - fst (ps ! (k - 1))) ^ 2 +
                        (snd (ps ! k) - snd (ps ! (k - 1))) ^ 2)) [i..<length ps]"
proof (induction ps i acc rule: deltas_loop.induct)
  case (1 ps i deltas)
  show ?case
  proof (cases "i < length ps")
    case True
    with "1.IH" show ?thesis
      by (subst deltas_loop.simps) (simp add: upt_conv_Cons)
  next
    case False
    then show ?thesis
      by (subst deltas_loop.simps) simp
  qed
qed

lemma step_lengths_by_index:
  "step_lengths ps =
     map (\<lambda>k. sqrt ((fst (ps ! k) - fst (ps ! (k - 1))) ^ 2 +
                  (snd (ps ! k) - snd (ps ! (k - 1))) ^ 2)) [1..<length ps]"
proof (rule nth_equalityI)
  show "length (step_lengths ps) = length (map (\<lambda>k. sqrt ((fst (ps ! k) - fst (ps ! (k - 1))) ^ 2 +
                  (snd (ps ! k) - snd (ps ! (k - 1))) ^ 2)) [1..<length ps])"
    by (simp add: step_lengths_def)
next
  fix i
  assume "i < length (step_lengths ps)"
  then have i: "i < length ps - 1"
    by (simp add: step_lengths_def)
  then show "step_lengths ps ! i = map (\<lambda>k. sqrt ((fst (ps ! k) - fst (ps ! (k - 1))) ^ 2 +
                  (snd (ps ! k) - snd (ps ! (k - 1))) ^ 2)) [1..<length ps] ! i"
    by (simp add: step_lengths_def nth_tl)
qed

lemma deltas_loop_step_lengths: "deltas_loop ps (Suc 0) [] = step_lengths ps"
  by (simp add: deltas_loop_eq step_lengths_by_index)

lemma handleMouseMove_positions:
  "mousePositions (handleMouseMove e now m) =
     (let pushed = mousePositions m @ [e] in if length pushed > 20 then tl pushed else pushed)"
  "listening (handleMouseMove e now m) = listening m"
  "keyIntervals (handleMouseMove e now m) = keyIntervals m"
  "lastKeyTime (handleMouseMove e now m) = lastKeyTime m"
  by (simp_all add: handleMouseMove_def Let_def)

lemma handleMouseMove_jitter:
  "mouseJitter (data (handleMouseMove e now m)) =
     (if length (mousePositions (handleMouseMove e now m)) > 2
      then mean_abs_dev (step_lengths (mousePositions (handleMouseMove e now m)))
      else 0)"
  by (simp add: handleMouseMove_def Let_def deltas_loop_step_lengths mean_abs_dev_def mean_def
      foldl_plus_sum_list foldl_abs_dev)

lemma moves_from_mount:
  "mousePositions (run (map (\<lambda>(e, now). MouseMove e now) es) (mount now0 True)) =
     most_recent 20 (map fst es) \<and>
   listening (run (map (\<lambda>(e, now). MouseMove e now) es) (mount now0 True))"
proof (induction es rule: rev_induct)
  case Nil
  show ?case by (simp add: mount_def most_recent_def)
next
  case (snoc a es)
  obtain e now where a: "a = (e, now)" by (cases a)
  let ?m = "run (map (\<lambda>(e, now). MouseMove e now) es) (mount now0 True)"
  from snoc have IH: "mousePositions ?m = most_recent 20 (map fst es)" "listening ?m"
    by blast+
  have run: "run (map (\<lambda>(e, now). MouseMove e now) (es @ [a])) (mount now0 True) =
               handleMouseMove e now ?m"
    using IH(2) by (simp add: run_append a)
  have "mousePositions (handleMouseMove e now ?m) =
          (let pushed = most_recent 20 (map fst es) @ [e]
           in if length pushed > 20 then tl pushed else pushed)"
    by (simp only: handleMouseMove_positions(1) IH)
  also have "\<dots> = most_recent 20 (map fst es @ [e])"
    by (rule most_recent_push [symmetric]) simp
  finally have "mousePositions (handleMouseMove e now ?m) = most_recent 20 (map fst (es @ [a]))"
    by (simp add: a)
  moreover have "listening (handleMouseMove e now ?m)"
    by (simp add: handleMouseMove_positions(2) IH(2))
  ultimately show ?case
    unfolding run by blast
qed

lemma step_window_bounds:
  assumes "length (keyIntervals m) \<le> 10" and "length (mousePositions m) \<le> 20"
  shows "length (keyIntervals (step e m)) \<le> 10 \<and> length (mousePositions (step e m)) \<le> 20"
  using assms
  by (cases e) (auto simp add: handleKeyDown_def handleMouseMove_def Let_def)

lemma run_window_bounds:
  assumes "length (keyIntervals m) \<le> 10" and "length (mousePositions m) \<le> 20"
  shows "length (keyIntervals (run es m)) \<le> 10 \<and> length (mousePositions (run es m)) \<le> 20"
  using assms
proof (induction es arbitrary: m)
  case Nil
  then show ?case by simp
next
  case (Cons e es)
  from step_window_bounds [OF Cons.prems, of e] show ?case
    by (simp add: Cons.IH)
qed


lemma typing_speed_from_mount:
  assumes "2 \<le> length ts" and "0 \<notin> set ts"
  shows "typingSpeed (data (run (map KeyDown ts) (mount now0 True))) =
           mean_of_gaps (most_recent 10 (gaps ts))"
proof -
  define ts' t where "ts' = butlast ts" and "t = last ts"
  have "ts \<noteq> []" using assms(1) by auto
  then have ts: "ts = ts' @ [t]"
    by (simp add: ts'_def t_def)
  have "length ts' \<noteq> 0"
    using assms(1) by (simp add: ts'_def)
  then have ne: "ts' \<noteq> []"
    by (simp del: length_0_conv)
  let ?m = "run (map KeyDown ts') (mount now0 True)"
  have "0 \<notin> set ts'" using assms(2) ts by simp
  from keys_from_mount [OF ne this, of now0] have "listening ?m" by blast
  then have run: "run (map KeyDown ts) (mount now0 True) = handleKeyDown t ?m"
    by (simp add: ts run_append)
  from keys_from_mount [OF \<open>ts \<noteq> []\<close> assms(2), of now0]
  have win: "keyIntervals (handleKeyDown t ?m) = most_recent 10 (gaps ts)"
    by (simp add: run)
  have "length (most_recent 10 (gaps ts)) \<noteq> 0"
    using assms(1) by (simp add: length_most_recent length_gaps)
  then have "most_recent 10 (gaps ts) \<noteq> []"
    by (simp del: length_0_conv)
  then show ?thesis
    by (simp add: run handleKeyDown_typingSpeed win)
qed

lemma most_recent_one_over:
  "length xs = Suc n \<Longrightarrow> most_recent n xs = tl xs"
  by (simp add: most_recent_def drop_Suc)

lemma jitter_cold_start:
  assumes "length es < 3"
  shows "mouseJitter (data (run (map (\<lambda>(e, now). MouseMove e now) es) (mount now0 True))) = 0"
proof (cases es rule: rev_cases)
  case Nil
  then show ?thesis by (simp add: mount_def)
next
  case (snoc es' a)
  obtain e now where a: "a = (e, now)" by (cases a)
  let ?m = "run (map (\<lambda>(e, now). MouseMove e now) es') (mount now0 True)"
  have "listening ?m"
    using moves_from_mount [of es' now0] by blast
  then have run: "run (map (\<lambda>(e, now). MouseMove e now) es) (mount now0 True) =
                    handleMouseMove e now ?m"
    by (simp add: snoc a run_append)
  have "mousePositions (handleMouseMove e now ?m) = most_recent 20 (map fst es)"
    using moves_from_mount [of es now0] by (simp add: run)
  then have "length (mousePositions (handleMouseMove e now ?m)) < 3"
    using assms by (simp add: length_most_recent)
  then show ?thesis
    by (simp add: run handleMouseMove_jitter)
qed

lemma not_listening_Render_False: "\<not> listening m \<Longrightarrow> m\<lparr>listening := False\<rparr> = m"
  by (cases m) simp

lemma run_while_inactive:
  assumes "\<not> listening m" and "Render True \<notin> set idle"
  shows "run idle m = m"
  using assms
proof (induction idle arbitrary: m)
  case Nil
  show ?case by simp
next
  case (Cons e idle)
  from Cons.prems have "step e m = m"
    by (cases e) (simp_all add: not_listening_Render_False)
  with Cons show ?case by simp
qed

subsection \<open>Typing speed\<close>

text \<open>
  Eleven keystrokes give ten gaps, and the window keeps all ten: after the times
  1, 101, 102, ..., 110 the published \<open>typingSpeed\<close> is 109 / 10, the mean of the ten gaps,
  and not 1, the mean of the most recent nine that claim C4 names.
\<close>

theorem C4_counterexample:
  "typingSpeed (data (run (map KeyDown [1, 101, 102, 103, 104, 105, 106, 107, 108, 109, 110])
                        (mount 0 True))) \<noteq>
   mean_of_gaps
     (most_recent (min 9 (length [1, 101, 102, 103, 104, 105, 106, 107, 108, 109, 110 :: int] - 1))
        (gaps [1, 101, 102, 103, 104, 105, 106, 107, 108, 109, 110]))"
proof -
  let ?ts = "[1, 101, 102, 103, 104, 105, 106, 107, 108, 109, 110 :: int]"
  have g: "gaps ?ts = [100, 1, 1, 1, 1, 1, 1, 1, 1, 1]"
    by (simp add: gaps_simps)
  have "typingSpeed (data (run (map KeyDown ?ts) (mount 0 True))) =
          mean_of_gaps (most_recent 10 (gaps ?ts))"
    by (rule typing_speed_from_mount) simp_all
  also have "\<dots> = 109 / 10"
    by (simp add: g most_recent_def mean_of_gaps_def)
  finally have code: "typingSpeed (data (run (map KeyDown ?ts) (mount 0 True))) = 109 / 10" .
  have spec: "mean_of_gaps (most_recent (min 9 (length ?ts - 1)) (gaps ?ts)) = 1"
    by (simp add: g most_recent_def mean_of_gaps_def)
  show ?thesis
    by (simp only: code spec)
qed

text \<open>
  Claim C4, as the code has it. For keystrokes at nonzero times (\<open>lastKeyTime\<close> uses 0
  for "no keystroke yet"), at least two of them, handled from the mount of an active hook:
  \<open>typingSpeed\<close> is the arithmetic mean of the most recent \<open>min 10 (count - 1)\<close>
  gaps between consecutive keystrokes, and the key-interval window holds the most recent
  10 gaps, oldest first.
\<close>

theorem C4_typing_speed_window_mean:
  assumes "2 \<le> length ts" and "0 \<notin> set ts"
  shows "typingSpeed (data (run (map KeyDown ts) (mount now0 True))) =
           mean_of_gaps (most_recent (min 10 (length ts - 1)) (gaps ts)) \<and>
         keyIntervals (run (map KeyDown ts) (mount now0 True)) = most_recent 10 (gaps ts)"
proof -
  have "most_recent (min 10 (length ts - 1)) (gaps ts) = most_recent 10 (gaps ts)"
    using most_recent_min [of 10 "gaps ts"] by (simp add: length_gaps)
  moreover have "ts \<noteq> []" using assms(1) by auto
  ultimately show ?thesis
    using typing_speed_from_mount [OF assms] keys_from_mount [OF _ assms(2), of now0] by simp
qed

theorem C4_typing_speed_window_mean_witness:
  "typingSpeed (data (run (map KeyDown [1000, 1100, 1300]) (mount 0 True))) = 150 \<and>
   keyIntervals (run (map KeyDown [1000, 1100, 1300]) (mount 0 True)) = [100, 200]"
proof -
  have "2 \<le> length [1000, 1100, 1300 :: int]" and "0 \<notin> set [1000, 1100, 1300 :: int]"
    by simp_all
  from C4_typing_speed_window_mean [OF this, of 0] show ?thesis
    by (simp add: gaps_simps most_recent_def mean_of_gaps_def)
qed

subsection \<open>Window bounds and eviction order\<close>

text \<open>
  Claim C6. Whatever events the hook handles after its mount, the key-interval window
  never holds more than 10 gaps and the pointer window never more than 20 positions. Twelve
  keystrokes (at nonzero times) insert eleven gaps into the empty key-interval window: it
  then holds the last ten of them in order, the first one gone. Twenty-one pointer moves
  leave the last twenty positions in order, the first one gone.
\<close>

theorem C6_windows_fifo_bounded:
  "(length (keyIntervals (run es (mount now0 isActive))) \<le> 10 \<and>
    length (mousePositions (run es (mount now0 isActive))) \<le> 20) \<and>
   (length ts = 12 \<and> 0 \<notin> set ts \<longrightarrow>
      keyIntervals (run (map KeyDown ts) (mount now0 True)) = tl (gaps ts) \<and>
      length (keyIntervals (run (map KeyDown ts) (mount now0 True))) = 10) \<and>
   (length ps = 21 \<longrightarrow>
      mousePositions (run (map (\<lambda>(e, now). MouseMove e now) ps) (mount now0 True)) =
        tl (map fst ps) \<and>
      length (mousePositions (run (map (\<lambda>(e, now). MouseMove e now) ps) (mount now0 True))) = 20)"
proof (intro conjI impI)
  have "length (keyIntervals (mount now0 isActive)) \<le> 10"
    and "length (mousePositions (mount now0 isActive)) \<le> 20"
    by (simp_all add: mount_def)
  from run_window_bounds [OF this, of es]
  show "length (keyIntervals (run es (mount now0 isActive))) \<le> 10"
    and "length (mousePositions (run es (mount now0 isActive))) \<le> 20"
    by blast+
next
  assume a: "length ts = 12 \<and> 0 \<notin> set ts"
  then have "ts \<noteq> []" by auto
  from keys_from_mount [OF this, of now0] a
  have "keyIntervals (run (map KeyDown ts) (mount now0 True)) = most_recent 10 (gaps ts)"
    by blast
  moreover have "length (gaps ts) = Suc 10"
    using a by (simp add: length_gaps)
  ultimately show "keyIntervals (run (map KeyDown ts) (mount now0 True)) = tl (gaps ts)"
    and "length (keyIntervals (run (map KeyDown ts) (mount now0 True))) = 10"
    by (simp_all add: most_recent_one_over)
next
  assume a: "length ps = 21"
  have "mousePositions (run (map (\<lambda>(e, now). MouseMove e now) ps) (mount now0 True)) =
          most_recent 20 (map fst ps)"
    using moves_from_mount [of ps now0] by blast
  moreover have "length (map fst ps) = Suc 20"
    using a by simp
  ultimately show "mousePositions (run (map (\<lambda>(e, now). MouseMove e now) ps) (mount now0 True)) =
        tl (map fst ps)"
    and "length (mousePositions (run (map (\<lambda>(e, now). MouseMove e now) ps) (mount now0 True))) = 20"
    by (simp_all add: most_recent_one_over del: length_map)
qed

theorem C6_windows_fifo_bounded_witness:
  "keyIntervals (run (map KeyDown [1, 3, 6, 10, 15, 21, 28, 36, 45, 55, 66, 78]) (mount 0 True)) =
     [3, 4, 5, 6, 7, 8, 9, 10, 11, 12] \<and>
   mousePositions
     (run (map (\<lambda>(e, now). MouseMove e now)
            [((0, 0), 1), ((1, 0), 2), ((2, 0), 3), ((3, 0), 4), ((4, 0), 5), ((5, 0), 6),
             ((6, 0), 7), ((7, 0), 8), ((8, 0), 9), ((9, 0), 10), ((10, 0), 11), ((11, 0), 12),
             ((12, 0), 13), ((13, 0), 14), ((14, 0), 15), ((15, 0), 16), ((16, 0), 17),
             ((17, 0), 18), ((18, 0), 19), ((19, 0), 20), ((20, 0), 21)])
        (mount 0 True)) =
     [(1, 0), (2, 0), (3, 0), (4, 0), (5, 0), (6, 0), (7, 0), (8, 0), (9, 0), (10, 0), (11, 0),
      (12, 0), (13, 0), (14, 0), (15, 0), (16, 0), (17, 0), (18, 0), (19, 0), (20, 0)]"
proof -
  let ?ts = "[1, 3, 6, 10, 15, 21, 28, 36, 45, 55, 66, 78 :: int]"
  let ?ps = "[((0, 0), 1), ((1, 0), 2), ((2, 0), 3), ((3, 0), 4), ((4, 0), 5), ((5, 0), 6),
             ((6, 0), 7), ((7, 0), 8), ((8, 0), 9), ((9, 0), 10), ((10, 0), 11), ((11, 0), 12),
             ((12, 0), 13), ((13, 0), 14), ((14, 0), 15), ((15, 0), 16), ((16, 0), 17),
             ((17, 0), 18), ((18, 0), 19), ((19, 0), 20), ((20, 0), 21 :: int)] :: ((real \<times> real) \<times> int) list"
  have k: "length ?ts = 12 \<and> 0 \<notin> set ?ts" by simp
  have p: "length ?ps = 21" by simp
  have g: "tl (gaps ?ts) = [3, 4, 5, 6, 7, 8, 9, 10, 11, 12]"
    by (simp add: gaps_simps)
  have f: "tl (map fst ?ps) =
     [(1, 0), (2, 0), (3, 0), (4, 0), (5, 0), (6, 0), (7, 0), (8, 0), (9, 0), (10, 0), (11, 0),
      (12, 0), (13, 0), (14, 0), (15, 0), (16, 0), (17, 0), (18, 0), (19, 0), (20, 0)]"
    by simp
  from C6_windows_fifo_bounded [of "[]" 0 True ?ts ?ps] k p
  have "keyIntervals (run (map KeyDown ?ts) (mount 0 True)) = tl (gaps ?ts)"
    and "mousePositions (run (map (\<lambda>(e, now). MouseMove e now) ?ps) (mount 0 True)) = tl (map fst ?ps)"
    by blast+
  then show ?thesis
    by (simp only: g f)
qed

subsection \<open>Pointer jitter\<close>

text \<open>
  Claim C5. After a pointer event is handled, \<open>mouseJitter\<close> is 0 when the window holds
  fewer than 3 positions, and otherwise the mean absolute deviation of the Euclidean step
  lengths between consecutive window positions from the mean of those step lengths; it is
  a function of the positions in the window alone. In particular a sequence of fewer than
  3 pointer events after the mount leaves \<open>mouseJitter\<close> at 0.
\<close>

theorem C5_mouse_jitter:
  "mouseJitter (data (handleMouseMove e now m)) =
     (if length (mousePositions (handleMouseMove e now m)) < 3 then 0
      else mean_abs_dev (step_lengths (mousePositions (handleMouseMove e now m)))) \<and>
   (length es < 3 \<longrightarrow>
      mouseJitter (data (run (map (\<lambda>(e, now). MouseMove e now) es) (mount now0 True))) = 0)"
proof -
  have "length (mousePositions (handleMouseMove e now m)) < 3 \<longleftrightarrow>
          \<not> length (mousePositions (handleMouseMove e now m)) > 2"
    by auto
  then show ?thesis
    using jitter_cold_start [of es now0]
    by (simp only: handleMouseMove_jitter [of e now m] if_not_P if_P split: if_splits) auto
qed

theorem C5_mouse_jitter_witness:
  "mouseJitter (data (run [MouseMove (0, 0) 1, MouseMove (1, 0) 2, MouseMove (3, 0) 3]
                        (mount 0 True))) = 1 / 2 \<and>
   mouseJitter (data (run (map (\<lambda>(e, now). MouseMove e now) [((0, 0), 1), ((1, 0), 2)])
                        (mount 0 True))) = 0"
proof -
  let ?m = "run [MouseMove (0, 0) 1, MouseMove (1, 0) 2] (mount 0 True)"
  have run: "run [MouseMove (0, 0) 1, MouseMove (1, 0) 2, MouseMove (3, 0) 3] (mount 0 True) =
               handleMouseMove (3, 0) 3 ?m"
    by (simp add: mount_def handleMouseMove_positions)
  have pos: "mousePositions (handleMouseMove (3, 0) 3 ?m) = [(0, 0), (1, 0), (3, 0)]"
    by (simp add: mount_def handleMouseMove_positions)
  have steps: "step_lengths [(0, 0), (1, 0), (3, 0)] = [1, 2]"
    by (simp add: step_lengths_def)
  have mad: "mean_abs_dev [1, 2] = 1 / 2"
    by (simp add: mean_abs_dev_def mean_def)
  have short: "length [((0, 0), 1), ((1, 0), 2 :: int)] < (3 :: nat)"
    by simp
  from C5_mouse_jitter [of "(3, 0)" 3 ?m "[((0, 0), 1), ((1, 0), 2)]" 0] short
  show ?thesis
    by (simp only: run pos steps mad) simp
qed

subsection \<open>Deactivating and reactivating\<close>

text \<open>
  The refs outlive the effect: after two keystrokes and a pointer move, a render with
  \<open>isActive\<close> false and one with \<open>isActive\<close> true leave the gap, the position and the
  last keystroke time in place, and the next keystroke averages over the old gap and a gap
  that spans the inactive period. Claim C2 says the windows are empty and the time unset.
\<close>

theorem C2_counterexample:
  "keyIntervals (run [KeyDown 100, KeyDown 200, MouseMove (5, 5) 250, Render False, Render True]
                   (mount 0 True)) \<noteq> [] \<and>
   mousePositions (run [KeyDown 100, KeyDown 200, MouseMove (5, 5) 250, Render False, Render True]
                     (mount 0 True)) \<noteq> [] \<and>
   lastKeyTime (run [KeyDown 100, KeyDown 200, MouseMove (5, 5) 250, Render False, Render True]
                  (mount 0 True)) \<noteq> 0 \<and>
   typingSpeed (data (run [KeyDown 100, KeyDown 200, MouseMove (5, 5) 250, Render False, Render True,
                           KeyDown 1000] (mount 0 True))) \<noteq>
   typingSpeed (data (run [KeyDown 1000] (mount 0 True)))"
  by (simp add: mount_def handleKeyDown_def handleMouseMove_def Let_def)

text \<open>
  Claim C2, as the code has it. Deactivating, any input events and renders while inactive,
  and reactivating leave the hook's state exactly as it was before the deactivation, with
  the listeners attached again: both windows, the last keystroke time and the published
  sample are kept, not reset. The windows are empty and the time is unset only at the mount.
\<close>

theorem C2_reactivation_keeps_windows:
  assumes "Render True \<notin> set idle"
  shows "run (Render False # idle @ [Render True]) m = m\<lparr>listening := True\<rparr> \<and>
         keyIntervals (mount now0 isActive) = [] \<and>
         mousePositions (mount now0 isActive) = [] \<and>
         lastKeyTime (mount now0 isActive) = 0"
proof -
  have "run idle (m\<lparr>listening := False\<rparr>) = m\<lparr>listening := False\<rparr>"
    by (rule run_while_inactive) (simp_all add: assms)
  then show ?thesis
    by (simp add: run_append mount_def)
qed

theorem C2_reactivation_keeps_windows_witness:
  "keyIntervals (run [KeyDown 100, KeyDown 200, MouseMove (5, 5) 250,
                      Render False, KeyDown 300, MouseMove (9, 9) 400, Render True]
                   (mount 0 True)) = [100] \<and>
   mousePositions (run [KeyDown 100, KeyDown 200, MouseMove (5, 5) 250,
                        Render False, KeyDown 300, MouseMove (9, 9) 400, Render True]
                     (mount 0 True)) = [(5, 5)] \<and>
   lastKeyTime (run [KeyDown 100, KeyDown 200, MouseMove (5, 5) 250,
                     Render False, KeyDown 300, MouseMove (9, 9) 400, Render True]
                  (mount 0 True)) = 200"
proof -
  let ?before = "run [KeyDown 100, KeyDown 200, MouseMove (5, 5) 250] (mount 0 True)"
  have idle: "Render True \<notin> set [KeyDown 300, MouseMove (9, 9) 400]"
    by simp
  have split: "run [KeyDown 100, KeyDown 200, MouseMove (5, 5) 250,
                    Render False, KeyDown 300, MouseMove (9, 9) 400, Render True] (mount 0 True) =
               run (Render False # [KeyDown 300, MouseMove (9, 9) 400] @ [Render True]) ?before"
    using run_append [of "[KeyDown 100, KeyDown 200, MouseMove (5, 5) 250]"
        "Render False # [KeyDown 300, MouseMove (9, 9) 400] @ [Render True]" "mount 0 True"]
    by simp
  have before: "keyIntervals ?before = [100]" "mousePositions ?before = [(5, 5)]"
    "lastKeyTime ?before = 200"
    by (simp_all add: mount_def handleKeyDown_def handleMouseMove_def Let_def)
  from C2_reactivation_keeps_windows [OF idle, of ?before]
  have eq: "run (Render False # [KeyDown 300, MouseMove (9, 9) 400] @ [Render True]) ?before =
          ?before\<lparr>listening := True\<rparr>"
    by blast
  have sel: "keyIntervals (m\<lparr>listening := True\<rparr>) = keyIntervals m"
    "mousePositions (m\<lparr>listening := True\<rparr>) = mousePositions m"
    "lastKeyTime (m\<lparr>listening := True\<rparr>) = lastKeyTime m" for m :: monitor
    by simp_all
  show ?thesis
    by (simp only: split eq sel before)
qed

end
